theory Spec2Isabelle
  imports Main "HOL-Library.Monad_Syntax"
begin

section \<open>Scoring Matrix (Blosum62)\<close>

text \<open>
  The class keeps a static 20 x 20 table, a map from residue character to table index and
  the gap character.  \<open>residueMap.at(residue)\<close> throws \<open>std::out_of_range\<close> for a
  character that is not a key; the model returns \<open>None\<close> there, and every function
  that calls it propagates the \<open>None\<close>.
\<close>

definition matrix :: "int list list" where
  "matrix =
    [[ 4, -1, -2, -2,  0, -1, -1,  0, -2, -1, -1, -1, -1, -2, -1,  1,  0, -3, -2,  0],
     [-1,  5,  0, -2, -3,  1,  0, -2,  0, -3, -2,  2, -1, -3, -2, -1, -1, -3, -2, -3],
     [-2,  0,  6,  1, -3,  0,  0,  0,  1, -3, -3,  0, -2, -3, -2,  1,  0, -4, -2, -3],
     [-2, -2,  1,  6, -3,  0,  2, -1, -1, -3, -4, -1, -3, -3, -1,  0, -1, -4, -3, -3],
     [ 0, -3, -3, -3,  9, -3, -4, -3, -3, -1, -1, -3, -1, -2, -3, -1, -1, -2, -2, -1],
     [-1,  1,  0,  0, -3,  5,  2, -2,  0, -3, -2,  1,  0, -3, -1,  0, -1, -2, -1, -2],
     [-1,  0,  0,  2, -4,  2,  5, -2,  0, -3, -3,  1, -2, -3, -1,  0, -1, -3, -2, -2],
     [ 0, -2,  0, -1, -3, -2, -2,  6, -2, -4, -4, -2, -3, -3, -2,  0, -2, -2, -3, -3],
     [-2,  0,  1, -1, -3,  0,  0, -2,  8, -3, -3, -1, -2, -1, -2, -1, -2, -2,  2, -3],
     [-1, -3, -3, -3, -1, -3, -3, -4, -3,  4,  2, -3,  1,  0, -3, -2, -1, -3, -1,  3],
     [-1, -2, -3, -4, -1, -2, -3, -4, -3,  2,  4, -2,  2,  0, -3, -2, -1, -2, -1,  1],
     [-1,  2,  0, -1, -3,  1,  1, -2, -1, -3, -2,  5, -1, -3, -1,  0, -1, -3, -2, -2],
     [-1, -1, -2, -3, -1,  0, -2, -3, -2,  1,  2, -1,  5,  0, -2, -1, -1, -1, -1,  1],
     [-2, -3, -3, -3, -2, -3, -3, -3, -1,  0,  0, -3,  0,  6, -4, -2, -2,  1,  3, -1],
     [-1, -2, -2, -1, -3, -1, -1, -2, -2, -3, -3, -1, -2, -4,  7, -1, -1, -4, -3, -2],
     [ 1, -1,  1,  0, -1,  0,  0,  0, -1, -2, -2,  0, -1, -2, -1,  4,  1, -3, -2, -2],
     [ 0, -1,  0, -1, -1, -1, -1, -2, -2, -1, -1, -1, -1, -2, -1,  1,  5, -2, -2,  0],
     [-3, -3, -4, -4, -2, -2, -3, -2, -2, -3, -2, -3, -1,  1, -4, -3, -2, 11,  2, -3],
     [-2, -2, -2, -3, -2, -1, -2, -3,  2, -1, -1, -2, -1,  3, -3, -2, -2,  2,  7, -1],
     [ 0, -3, -3, -3, -1, -2, -2, -3, -3,  3,  1, -2,  1, -1, -2, -2,  0, -3, -1,  4]]"

definition createResidueMap :: "(char \<times> nat) list" where
  "createResidueMap =
    [(CHR ''A'', 0), (CHR ''R'', 1), (CHR ''N'', 2), (CHR ''D'', 3), (CHR ''C'', 4),
     (CHR ''Q'', 5), (CHR ''E'', 6), (CHR ''G'', 7), (CHR ''H'', 8), (CHR ''I'', 9),
     (CHR ''L'', 10), (CHR ''K'', 11), (CHR ''M'', 12), (CHR ''F'', 13), (CHR ''P'', 14),
     (CHR ''S'', 15), (CHR ''T'', 16), (CHR ''W'', 17), (CHR ''Y'', 18), (CHR ''V'', 19)]"

definition residueMap :: "char \<rightharpoonup> nat" where
  "residueMap = map_of createResidueMap"

definition gapChar :: char where
  "gapChar = CHR ''-''"

definition getIndex :: "char \<Rightarrow> nat option" where
  "getIndex residue = residueMap residue"

definition gapCost :: int where
  "gapCost = -6"

definition getScore :: "char \<Rightarrow> char \<Rightarrow> int option" where
  "getScore residue1 residue2 =
     (if residue1 \<noteq> gapChar \<and> residue2 \<noteq> gapChar then
        do { i \<leftarrow> getIndex residue1; j \<leftarrow> getIndex residue2; Some (matrix ! i ! j) }
      else if residue1 \<noteq> gapChar \<or> residue2 \<noteq> gapChar then Some gapCost
      else Some 0)"

definition sumOfPairsWeight :: "char \<Rightarrow> char \<Rightarrow> char \<Rightarrow> int option" where
  "sumOfPairsWeight residue1 residue2 residue3 =
     do { a \<leftarrow> getScore residue1 residue2;
          b \<leftarrow> getScore residue2 residue3;
          c \<leftarrow> getScore residue1 residue3;
          Some (0 + a + b + c) }"

text \<open>The 20-symbol alphabet is the key set of the residue map.\<close>

definition alphabet :: "char list" where
  "alphabet = map fst createResidueMap"

section \<open>Graph Builder (WDAGraphFileBuilder)\<close>

text \<open>
  The builder streams vertex lines into one string stream and edge lines into another and
  writes both to the graph file at the end.  A vertex line \<open>V i,j,k\<close> is kept as
  the triple of integers streamed into it, an edge line as a record of the values streamed
  into it; \<open>graphFile\<close> renders both streams as the text the file receives.
  Sequence positions and lengths are \<open>nat\<close>: the source holds them in \<open>int\<close>
  and a sequence is taken to be shorter than \<open>2^31\<close> characters.
\<close>

record edge_line =
  lineLabel :: "char \<times> char \<times> char"
  lineStart :: "nat \<times> nat \<times> nat"
  lineEnd :: "nat \<times> nat \<times> nat"
  lineWeight :: int

record streams =
  vertexStream :: "(nat \<times> nat \<times> nat) list"
  edgeStream :: "edge_line list"

text \<open>
  \<open>addEdge\<close>: the end vertex advances exactly the positions whose label character
  is not the gap character.  An exception of \<open>sumOfPairsWeight\<close> leaves the function
  (and the whole build, before the file is opened), so the partly written line is never seen.
\<close>

definition addEdge ::
  "edge_line list \<Rightarrow> char \<Rightarrow> char \<Rightarrow> char \<Rightarrow> nat \<Rightarrow> nat \<Rightarrow> nat \<Rightarrow> edge_line list option" where
  "addEdge edges residue1 residue2 residue3 residue1StartLoc residue2StartLoc residue3StartLoc =
     do { w \<leftarrow> sumOfPairsWeight residue1 residue2 residue3;
          Some (edges @
            [\<lparr>lineLabel = (residue1, residue2, residue3),
              lineStart = (residue1StartLoc, residue2StartLoc, residue3StartLoc),
              lineEnd = (if residue1 = gapChar then residue1StartLoc else residue1StartLoc + 1,
                         if residue2 = gapChar then residue2StartLoc else residue2StartLoc + 1,
                         if residue3 = gapChar then residue3StartLoc else residue3StartLoc + 1),
              lineWeight = w\<rparr>]) }"

text \<open>
  The body of the innermost loop, for the vertex \<open>(seq1Loc, seq2Loc, seq3Loc)\<close>.
  The source reads \<open>residue1 = seq1.at(seq1Loc)\<close> only when
  \<open>seq1Loc < seq1Length\<close>, leaves the variable uninitialised otherwise, and uses it
  only under that same guard (likewise \<open>residue2\<close>, \<open>residue3\<close>).  The model
  writes \<open>seq1 ! seq1Loc\<close> at each of these guarded uses, so no sequence is read out
  of range and no uninitialised value is used.
\<close>

definition vertexBody ::
  "string \<Rightarrow> string \<Rightarrow> string \<Rightarrow> nat \<Rightarrow> nat \<Rightarrow> nat \<Rightarrow> streams \<Rightarrow> streams option" where
  "vertexBody seq1 seq2 seq3 seq1Loc seq2Loc seq3Loc st =
    (let seq1Length = length seq1; seq2Length = length seq2; seq3Length = length seq3;
         vertices = vertexStream st @ [(seq1Loc, seq2Loc, seq3Loc)];
         edges = edgeStream st
     in map_option (\<lambda>es. \<lparr>vertexStream = vertices, edgeStream = es\<rparr>)
      (if seq1Loc < seq1Length \<and> seq2Loc < seq2Length \<and> seq3Loc < seq3Length then
         do { edges \<leftarrow> addEdge edges (seq1 ! seq1Loc) gapChar gapChar seq1Loc seq2Loc seq3Loc;
              edges \<leftarrow> addEdge edges gapChar (seq2 ! seq2Loc) gapChar seq1Loc seq2Loc seq3Loc;
              edges \<leftarrow> addEdge edges gapChar gapChar (seq3 ! seq3Loc) seq1Loc seq2Loc seq3Loc;
              edges \<leftarrow> addEdge edges (seq1 ! seq1Loc) (seq2 ! seq2Loc) gapChar seq1Loc seq2Loc seq3Loc;
              edges \<leftarrow> addEdge edges gapChar (seq2 ! seq2Loc) (seq3 ! seq3Loc) seq1Loc seq2Loc seq3Loc;
              edges \<leftarrow> addEdge edges (seq1 ! seq1Loc) gapChar (seq3 ! seq3Loc) seq1Loc seq2Loc seq3Loc;
              addEdge edges (seq1 ! seq1Loc) (seq2 ! seq2Loc) (seq3 ! seq3Loc) seq1Loc seq2Loc seq3Loc }
       else if seq1Loc = seq1Length then
         do { edges \<leftarrow> (if seq2Loc < seq2Length
                        then addEdge edges gapChar (seq2 ! seq2Loc) gapChar seq1Loc seq2Loc seq3Loc
                        else Some edges);
              edges \<leftarrow> (if seq3Loc < seq3Length
                        then addEdge edges gapChar gapChar (seq3 ! seq3Loc) seq1Loc seq2Loc seq3Loc
                        else Some edges);
              (if seq2Loc < seq2Length \<and> seq3Loc < seq3Length
               then addEdge edges gapChar (seq2 ! seq2Loc) (seq3 ! seq3Loc) seq1Loc seq2Loc seq3Loc
               else Some edges) }
       else if seq2Loc = seq2Length then
         do { edges \<leftarrow> (if seq1Loc < seq1Length
                        then addEdge edges (seq1 ! seq1Loc) gapChar gapChar seq1Loc seq2Loc seq3Loc
                        else Some edges);
              edges \<leftarrow> (if seq3Loc < seq3Length
                        then addEdge edges gapChar gapChar (seq3 ! seq3Loc) seq1Loc seq2Loc seq3Loc
                        else Some edges);
              (if seq1Loc < seq1Length \<and> seq3Loc < seq3Length
               then addEdge edges (seq1 ! seq1Loc) gapChar (seq3 ! seq3Loc) seq1Loc seq2Loc seq3Loc
               else Some edges) }
       else if seq3Loc = seq3Length then
         do { edges \<leftarrow> (if seq1Loc < seq1Length
                        then addEdge edges (seq1 ! seq1Loc) gapChar gapChar seq1Loc seq2Loc seq3Loc
                        else Some edges);
              edges \<leftarrow> (if seq2Loc < seq2Length
                        then addEdge edges gapChar (seq2 ! seq2Loc) gapChar seq1Loc seq2Loc seq3Loc
                        else Some edges);
              (if seq1Loc < seq1Length \<and> seq2Loc < seq2Length
               then addEdge edges (seq1 ! seq1Loc) (seq2 ! seq2Loc) gapChar seq1Loc seq2Loc seq3Loc
               else Some edges) }
       else Some edges))"

text \<open>The three nested \<open>for\<close> loops, each over the positions \<open>0 .. length\<close>.\<close>

fun seq3Loop :: "string \<Rightarrow> string \<Rightarrow> string \<Rightarrow> nat \<Rightarrow> nat \<Rightarrow> nat list \<Rightarrow> streams \<Rightarrow> streams option" where
  "seq3Loop seq1 seq2 seq3 seq1Loc seq2Loc [] st = Some st"
| "seq3Loop seq1 seq2 seq3 seq1Loc seq2Loc (seq3Loc # rest) st =
     (case vertexBody seq1 seq2 seq3 seq1Loc seq2Loc seq3Loc st of
        None \<Rightarrow> None
      | Some st' \<Rightarrow> seq3Loop seq1 seq2 seq3 seq1Loc seq2Loc rest st')"

fun seq2Loop :: "string \<Rightarrow> string \<Rightarrow> string \<Rightarrow> nat \<Rightarrow> nat list \<Rightarrow> streams \<Rightarrow> streams option" where
  "seq2Loop seq1 seq2 seq3 seq1Loc [] st = Some st"
| "seq2Loop seq1 seq2 seq3 seq1Loc (seq2Loc # rest) st =
     (case seq3Loop seq1 seq2 seq3 seq1Loc seq2Loc [0..<Suc (length seq3)] st of
        None \<Rightarrow> None
      | Some st' \<Rightarrow> seq2Loop seq1 seq2 seq3 seq1Loc rest st')"

fun seq1Loop :: "string \<Rightarrow> string \<Rightarrow> string \<Rightarrow> nat list \<Rightarrow> streams \<Rightarrow> streams option" where
  "seq1Loop seq1 seq2 seq3 [] st = Some st"
| "seq1Loop seq1 seq2 seq3 (seq1Loc # rest) st =
     (case seq2Loop seq1 seq2 seq3 seq1Loc [0..<Suc (length seq2)] st of
        None \<Rightarrow> None
      | Some st' \<Rightarrow> seq1Loop seq1 seq2 seq3 rest st')"

definition buildGraphFile :: "string \<Rightarrow> string \<Rightarrow> string \<Rightarrow> streams option" where
  "buildGraphFile seq1 seq2 seq3 =
     seq1Loop seq1 seq2 seq3 [0..<Suc (length seq1)] \<lparr>vertexStream = [], edgeStream = []\<rparr>"








section \<open>Graph Engine (WDAGraph)\<close>

text \<open>
  The graph owns its \<open>Vertex\<close> and \<open>Edge\<close> objects and refers to them by pointer.
  A \<open>Vertex*\<close> is modelled by the position of the vertex in the \<open>vertices\<close> vector
  (every vertex is created by \<open>addVertex\<close> and pushed there at once), an \<open>Edge*\<close>
  by the position of the edge in \<open>edgeStore\<close>, the list of the edges in creation order;
  \<open>NULL\<close> is \<open>None\<close>.  The \<open>std::map\<close>s are partial functions.

  Weights are \<open>double\<close> in the source.  The model keeps them in \<open>int\<close>: the weights
  the Graph Builder writes are integers, on which \<open>double\<close> arithmetic is exact.
\<close>

definition INT_MIN :: int where
  "INT_MIN = - 2147483648"

record Vertex =
  vlabel :: string
  vweight :: int
  edgeForHWPath :: "nat option"

record Edge =
  elabel :: string
  eweight :: int
  estart :: nat
  eend :: nat

record WDAGraph =
  vertices :: "Vertex list"
  edgeStore :: "Edge list"
  verticeMap :: "string \<rightharpoonup> nat"
  edges :: "string \<rightharpoonup> nat list"
  startNode :: "nat option"
  endNode :: "nat option"
  highestWeightNode :: "nat option"
  edgeWeights :: "string \<rightharpoonup> int"
  edgeFrequencies :: "string \<rightharpoonup> int"

subsection \<open>Loading\<close>

text \<open>
  \<open>StringUtilities::split\<close> reads items with \<open>getline(ss, item, delim)\<close>: an item
  ends at the delimiter or at the end of the text, and the end of the text right after a
  delimiter gives no further item.  \<open>buildGraph\<close> reads the lines of the file with the
  same \<open>getline\<close>, so the lines of a text are its split at the newline character.
\<close>

function split :: "string \<Rightarrow> char \<Rightarrow> string list" where
  "split s delim =
     (if s = [] then []
      else (case dropWhile (\<lambda>c. c \<noteq> delim) s of
              [] \<Rightarrow> [s]
            | _ # rest \<Rightarrow> takeWhile (\<lambda>c. c \<noteq> delim) s # split rest delim))"
  by pat_completeness auto
termination
proof (relation "measure (\<lambda>(s, delim). length s)")
  fix s :: string and delim x rest
  assume "dropWhile (\<lambda>c. c \<noteq> delim) s = x # rest"
  then have "length rest < length (dropWhile (\<lambda>c. c \<noteq> delim) s)" by simp
  also have "\<dots> \<le> length s" by (rule length_dropWhile_le)
  finally show "((rest, delim), (s, delim)) \<in> measure (\<lambda>(s, delim). length s)" by simp
qed simp

text \<open>
  \<open>atof\<close> belongs to the C library.  The model reads an optional sign and the decimal
  digits that follow, which is the whole of a weight written by the Graph Builder.
\<close>

fun digitsValue :: "string \<Rightarrow> nat \<Rightarrow> nat" where
  "digitsValue [] acc = acc"
| "digitsValue (c # cs) acc =
     (if 48 \<le> (of_char c :: nat) \<and> (of_char c :: nat) \<le> 57
      then digitsValue cs (10 * acc + (of_char c - 48)) else acc)"

definition atof :: "string \<Rightarrow> int" where
  "atof s = (case s of
               [] \<Rightarrow> 0
             | c # cs \<Rightarrow> if c = CHR ''-'' then - int (digitsValue cs 0)
                         else if c = CHR ''+'' then int (digitsValue cs 0)
                         else int (digitsValue s 0))"

text \<open>
  \<open>tokens.at(n)\<close> throws \<open>std::out_of_range\<close> when the line has too few tokens, and
  \<open>verticeMap.find(label)->second\<close> dereferences the end iterator when the label is not
  registered.  Both leave the model with \<open>None\<close>: the engine has no error handling.
\<close>

definition addVertex :: "WDAGraph \<Rightarrow> string list \<Rightarrow> WDAGraph option" where
  "addVertex g tokens =
     (if length tokens < 2 then None
      else
        let vertex = \<lparr>vlabel = tokens ! 1, vweight = INT_MIN, edgeForHWPath = None\<rparr>;
            p = length (vertices g);
            g = (if length tokens > 2
                 then (if tokens ! 2 = ''START'' then g\<lparr>startNode := Some p\<rparr>
                       else if tokens ! 2 = ''END'' then g\<lparr>endNode := Some p\<rparr>
                       else g)
                 else g)
        in Some (g\<lparr>vertices := vertices g @ [vertex],
                    verticeMap := (verticeMap g)(vlabel vertex \<mapsto> p),
                    edges := (edges g)(vlabel vertex \<mapsto> [])\<rparr>))"

text \<open>
  \<open>WDAGraph::addEdge\<close> (the builder has an \<open>addEdge\<close> of its own).  The frequency
  statement is \<open>edgeFrequencies[edge->label] = freqIter->second++\<close>: the right operand is
  evaluated first (C++17), it yields the old count and stores the count plus one; the
  assignment then stores the old count in the same entry.
\<close>

definition WDAGraph_addEdge :: "WDAGraph \<Rightarrow> string list \<Rightarrow> WDAGraph option" where
  "WDAGraph_addEdge g tokens =
     (if length tokens < 5 then None
      else
        (case verticeMap g (tokens ! 2) of None \<Rightarrow> None | Some start \<Rightarrow>
         case verticeMap g (tokens ! 3) of None \<Rightarrow> None | Some end \<Rightarrow>
           let edge = \<lparr>elabel = tokens ! 1, eweight = atof (tokens ! 4),
                        estart = start, eend = end\<rparr>;
               p = length (edgeStore g);
               g = g\<lparr>edgeStore := edgeStore g @ [edge]\<rparr>
           in
           (case edges g (vlabel (vertices g ! start)) of None \<Rightarrow> None | Some startEdges \<Rightarrow>
              let g = g\<lparr>edges := (edges g)(vlabel (vertices g ! start) \<mapsto> startEdges @ [p])\<rparr> in
              (case edges g (vlabel (vertices g ! end)) of None \<Rightarrow> None | Some endEdges \<Rightarrow>
                 let g = g\<lparr>edges := (edges g)(vlabel (vertices g ! end) \<mapsto> endEdges @ [p])\<rparr>;
                     g = (case edgeWeights g (elabel edge) of
                            None \<Rightarrow> g\<lparr>edgeWeights := (edgeWeights g)(elabel edge \<mapsto> eweight edge)\<rparr>
                          | Some _ \<Rightarrow> g);
                     g = (case edgeFrequencies g (elabel edge) of
                            Some count \<Rightarrow>
                              g\<lparr>edgeFrequencies :=
                                  ((edgeFrequencies g)(elabel edge \<mapsto> count + 1))(elabel edge \<mapsto> count)\<rparr>
                          | None \<Rightarrow> g\<lparr>edgeFrequencies := (edgeFrequencies g)(elabel edge \<mapsto> 1)\<rparr>)
                 in Some g))))"

fun buildGraphLines :: "WDAGraph \<Rightarrow> string list \<Rightarrow> WDAGraph option" where
  "buildGraphLines g [] = Some g"
| "buildGraphLines g (line # rest) =
     (case split line CHR '' '' of
        [] \<Rightarrow> None
      | t # ts \<Rightarrow>
          if t = ''V'' then
            (case addVertex g (t # ts) of None \<Rightarrow> None | Some g' \<Rightarrow> buildGraphLines g' rest)
          else if t = ''E'' then
            (case WDAGraph_addEdge g (t # ts) of None \<Rightarrow> None | Some g' \<Rightarrow> buildGraphLines g' rest)
          else buildGraphLines g rest)"

text \<open>The constructor: null pointers, empty containers, then \<open>buildGraph\<close> on the file.\<close>

definition emptyGraph :: WDAGraph where
  "emptyGraph = \<lparr>vertices = [], edgeStore = [], verticeMap = Map.empty, edges = Map.empty,
     startNode = None, endNode = None, highestWeightNode = None,
     edgeWeights = Map.empty, edgeFrequencies = Map.empty\<rparr>"

definition buildGraph :: "string \<Rightarrow> WDAGraph option" where
  "buildGraph graphFileText = buildGraphLines emptyGraph (split graphFileText (CHR 0x0A))"

subsection \<open>The highest-weight path\<close>

definition isStartConstrained :: "WDAGraph \<Rightarrow> bool" where
  "isStartConstrained g \<longleftrightarrow> startNode g \<noteq> None"

definition isEndConstrained :: "WDAGraph \<Rightarrow> bool" where
  "isEndConstrained g \<longleftrightarrow> endNode g \<noteq> None"

text \<open>The inner loop of \<open>findHighestWeightPath\<close>, over the edges listed for the vertex.\<close>

fun scanEdges :: "WDAGraph \<Rightarrow> nat \<Rightarrow> nat list \<Rightarrow> WDAGraph" where
  "scanEdges g vertex [] = g"
| "scanEdges g vertex (edge # rest) =
     (let e = edgeStore g ! edge in
      if vlabel (vertices g ! eend e) = vlabel (vertices g ! vertex) then
        if isStartConstrained g \<and> vweight (vertices g ! estart e) = INT_MIN then
          scanEdges g vertex rest
        else
          let pathWeight = vweight (vertices g ! estart e) + eweight e in
          if pathWeight > vweight (vertices g ! vertex) then
            scanEdges
              (g\<lparr>vertices := (vertices g)[vertex :=
                    (vertices g ! vertex)\<lparr>vweight := pathWeight, edgeForHWPath := Some edge\<rparr>]\<rparr>)
              vertex rest
          else scanEdges g vertex rest
      else scanEdges g vertex rest)"

text \<open>
  One pass of the outer loop body: \<open>Next\<close> goes on with the next vertex (the end of the
  body or a \<open>continue\<close>), \<open>Stop\<close> is the \<open>break\<close>, \<open>Fault\<close> a vertex
  whose label has no entry in \<open>edges\<close>.
\<close>

datatype control = Next WDAGraph bool | Stop WDAGraph | Fault

definition visitVertex :: "WDAGraph \<Rightarrow> bool \<Rightarrow> nat \<Rightarrow> control" where
  "visitVertex g startFound vertex =
     (let skip = (case startNode g of
                    Some sn \<Rightarrow> \<not> startFound \<and> vlabel (vertices g ! vertex) \<noteq> vlabel (vertices g ! sn)
                  | None \<Rightarrow> False)
      in
      if skip then Next g startFound
      else
        let g1 = (case startNode g of
                    Some sn \<Rightarrow>
                      if \<not> startFound then
                        g\<lparr>vertices := (vertices g)[vertex := (vertices g ! vertex)\<lparr>vweight := 0\<rparr>],
                          highestWeightNode := Some vertex\<rparr>
                      else g
                  | None \<Rightarrow> g\<lparr>vertices := (vertices g)[vertex := (vertices g ! vertex)\<lparr>vweight := 0\<rparr>]\<rparr>);
            startFound1 = (case startNode g of Some sn \<Rightarrow> True | None \<Rightarrow> startFound)
        in
        (case edges g1 (vlabel (vertices g1 ! vertex)) of
           None \<Rightarrow> Fault
         | Some vertexEdges \<Rightarrow>
             let g2 = scanEdges g1 vertex vertexEdges in
             (case endNode g2 of
                Some en \<Rightarrow>
                  if vlabel (vertices g2 ! vertex) = vlabel (vertices g2 ! en)
                  then Stop (g2\<lparr>highestWeightNode := Some vertex\<rparr>)
                  else Next g2 startFound1
              | None \<Rightarrow>
                  (case highestWeightNode g2 of
                     None \<Rightarrow> Next (g2\<lparr>highestWeightNode := Some vertex\<rparr>) startFound1
                   | Some h \<Rightarrow>
                       if vweight (vertices g2 ! vertex) > vweight (vertices g2 ! h)
                       then Next (g2\<lparr>highestWeightNode := Some vertex\<rparr>) startFound1
                       else Next g2 startFound1))))"

fun forVertices :: "WDAGraph \<Rightarrow> bool \<Rightarrow> nat list \<Rightarrow> WDAGraph option" where
  "forVertices g startFound [] = Some g"
| "forVertices g startFound (vertex # rest) =
     (case visitVertex g startFound vertex of
        Next g' startFound' \<Rightarrow> forVertices g' startFound' rest
      | Stop g' \<Rightarrow> Some g'
      | Fault \<Rightarrow> None)"

definition findHighestWeightPath :: "WDAGraph \<Rightarrow> WDAGraph option" where
  "findHighestWeightPath g = forVertices g False [0..<length (vertices g)]"

subsection \<open>Reporting\<close>

text \<open>
  Both walks follow \<open>edgeForHWPath\<close> until a vertex has none; nothing in the source
  bounds them, so they are partial.  \<open>getPath\<close> streams every label followed by a newline
  and returns the reverse of the whole streamed string.
\<close>

partial_function (option) walkPath :: "WDAGraph \<Rightarrow> nat \<Rightarrow> string \<Rightarrow> string option" where
  "walkPath g aNode ss =
     (case edgeForHWPath (vertices g ! aNode) of
        None \<Rightarrow> Some ss
      | Some anEdge \<Rightarrow>
          walkPath g (estart (edgeStore g ! anEdge)) (ss @ elabel (edgeStore g ! anEdge) @ [CHR 0x0A]))"

declare walkPath.simps [code]

definition getPath :: "WDAGraph \<Rightarrow> string option" where
  "getPath g = (case highestWeightNode g of
                  None \<Rightarrow> Some []
                | Some h \<Rightarrow> map_option rev (walkPath g h []))"






subsection \<open>Vocabulary for the builder's properties\<close>

text \<open>
  A builder input is a sequence of residues of the 20-symbol alphabet; the gap symbol
  does not occur in it.
\<close>

definition residues :: "string \<Rightarrow> bool" where
  "residues s = list_all (\<lambda>c. c \<in> set alphabet) s"

definition validSymbol :: "char \<Rightarrow> bool" where
  "validSymbol c \<longleftrightarrow> c = gapChar \<or> c \<in> set alphabet"

text \<open>The edge that \<open>addEdge\<close> appends for a column at a vertex, when the weight exists.\<close>

definition edgeOf :: "nat \<times> nat \<times> nat \<Rightarrow> char \<times> char \<times> char \<Rightarrow> edge_line" where
  "edgeOf v col = (case v of (i, j, k) \<Rightarrow> case col of (r1, r2, r3) \<Rightarrow>
     \<lparr>lineLabel = (r1, r2, r3), lineStart = (i, j, k),
      lineEnd = (if r1 = gapChar then i else i + 1, if r2 = gapChar then j else j + 1,
                 if r3 = gapChar then k else k + 1),
      lineWeight = (case sumOfPairsWeight r1 r2 r3 of Some w \<Rightarrow> w | None \<Rightarrow> 0)\<rparr>)"

text \<open>The columns for which the loop body calls \<open>addEdge\<close> at a vertex, in call order.\<close>

definition columns :: "string \<Rightarrow> string \<Rightarrow> string \<Rightarrow> nat \<times> nat \<times> nat \<Rightarrow> (char \<times> char \<times> char) list" where
  "columns s1 s2 s3 v = (case v of (i, j, k) \<Rightarrow>
     (let a = i < length s1; b = j < length s2; c = k < length s3; g = gapChar
      in if a \<and> b \<and> c then
           [(s1 ! i, g, g), (g, s2 ! j, g), (g, g, s3 ! k), (s1 ! i, s2 ! j, g),
            (g, s2 ! j, s3 ! k), (s1 ! i, g, s3 ! k), (s1 ! i, s2 ! j, s3 ! k)]
         else if \<not> a then
           (if b then [(g, s2 ! j, g)] else []) @ (if c then [(g, g, s3 ! k)] else []) @
           (if b \<and> c then [(g, s2 ! j, s3 ! k)] else [])
         else if \<not> b then
           [(s1 ! i, g, g)] @ (if c then [(g, g, s3 ! k), (s1 ! i, g, s3 ! k)] else [])
         else [(s1 ! i, g, g), (g, s2 ! j, g), (s1 ! i, s2 ! j, g)]))"

definition edgesAt :: "string \<Rightarrow> string \<Rightarrow> string \<Rightarrow> nat \<times> nat \<times> nat \<Rightarrow> edge_line list" where
  "edgesAt s1 s2 s3 v = map (edgeOf v) (columns s1 s2 s3 v)"

text \<open>The vertices in nested ascending order: \<open>i\<close> outermost, \<open>k\<close> innermost.\<close>

definition grid :: "nat \<Rightarrow> nat \<Rightarrow> nat \<Rightarrow> (nat \<times> nat \<times> nat) list" where
  "grid n1 n2 n3 = [(i, j, k). i \<leftarrow> [0..<Suc n1], j \<leftarrow> [0..<Suc n2], k \<leftarrow> [0..<Suc n3]]"

text \<open>The number of real residues in a column, and of exhausted sequences at a vertex.\<close>

definition residueCount :: "char \<times> char \<times> char \<Rightarrow> nat" where
  "residueCount col = (case col of (r1, r2, r3) \<Rightarrow> length (filter (\<lambda>r. r \<noteq> gapChar) [r1, r2, r3]))"



text \<open>
  The monotonic-advance rule for one edge: every coordinate stays or grows by one, at least
  one grows, and a coordinate grows exactly when its label position holds a residue.
\<close>

definition monotonicAdvance :: "edge_line \<Rightarrow> bool" where
  "monotonicAdvance e =
     (case lineLabel e of (r1, r2, r3) \<Rightarrow>
      case lineStart e of (i, j, k) \<Rightarrow>
      case lineEnd e of (i', j', k') \<Rightarrow>
        (i' = i \<or> i' = i + 1) \<and> (j' = j \<or> j' = j + 1) \<and> (k' = k \<or> k' = k + 1) \<and>
        (i < i' \<or> j < j' \<or> k < k') \<and>
        (i' = i + 1) = (r1 \<noteq> gapChar) \<and> (i' = i) = (r1 = gapChar) \<and>
        (j' = j + 1) = (r2 \<noteq> gapChar) \<and> (j' = j) = (r2 = gapChar) \<and>
        (k' = k + 1) = (r3 \<noteq> gapChar) \<and> (k' = k) = (r3 = gapChar))"

subsection \<open>Vocabulary for the engine's properties\<close>


text \<open>The three phases of the loop body of \<open>findHighestWeightPath\<close>: the start
  constraint, the scan of the edges, the choice of the best vertex.\<close>

definition skipVertex :: "WDAGraph \<Rightarrow> bool \<Rightarrow> nat \<Rightarrow> bool" where
  "skipVertex g startFound vertex =
     (case startNode g of
        Some sn \<Rightarrow> \<not> startFound \<and> vlabel (vertices g ! vertex) \<noteq> vlabel (vertices g ! sn)
      | None \<Rightarrow> False)"

definition enterVertex :: "WDAGraph \<Rightarrow> bool \<Rightarrow> nat \<Rightarrow> WDAGraph" where
  "enterVertex g startFound vertex =
     (case startNode g of
        Some sn \<Rightarrow>
          if \<not> startFound then
            g\<lparr>vertices := (vertices g)[vertex := (vertices g ! vertex)\<lparr>vweight := 0\<rparr>],
              highestWeightNode := Some vertex\<rparr>
          else g
      | None \<Rightarrow> g\<lparr>vertices := (vertices g)[vertex := (vertices g ! vertex)\<lparr>vweight := 0\<rparr>]\<rparr>)"

definition chooseBest :: "WDAGraph \<Rightarrow> bool \<Rightarrow> nat \<Rightarrow> control" where
  "chooseBest g2 startFound1 vertex =
     (case endNode g2 of
        Some en \<Rightarrow>
          if vlabel (vertices g2 ! vertex) = vlabel (vertices g2 ! en)
          then Stop (g2\<lparr>highestWeightNode := Some vertex\<rparr>)
          else Next g2 startFound1
      | None \<Rightarrow>
          (case highestWeightNode g2 of
             None \<Rightarrow> Next (g2\<lparr>highestWeightNode := Some vertex\<rparr>) startFound1
           | Some h \<Rightarrow>
               if vweight (vertices g2 ! vertex) > vweight (vertices g2 ! h)
               then Next (g2\<lparr>highestWeightNode := Some vertex\<rparr>) startFound1
               else Next g2 startFound1))"


definition staticEq :: "WDAGraph \<Rightarrow> WDAGraph \<Rightarrow> bool" where
  "staticEq g' g \<longleftrightarrow>
     edgeStore g' = edgeStore g \<and> edges g' = edges g \<and> startNode g' = startNode g \<and>
     endNode g' = endNode g \<and> verticeMap g' = verticeMap g \<and> edgeWeights g' = edgeWeights g \<and>
     edgeFrequencies g' = edgeFrequencies g \<and>
     map vlabel (vertices g') = map vlabel (vertices g)"

definition pointersValid :: "WDAGraph \<Rightarrow> bool" where
  "pointersValid g \<longleftrightarrow>
     list_all (\<lambda>e. estart e < length (vertices g) \<and> eend e < length (vertices g)) (edgeStore g) \<and>
     (case startNode g of None \<Rightarrow> True | Some s \<Rightarrow> s < length (vertices g)) \<and>
     (case endNode g of None \<Rightarrow> True | Some t \<Rightarrow> t < length (vertices g)) \<and>
     list_all (\<lambda>l. case edges g l of None \<Rightarrow> False
                   | Some es \<Rightarrow> list_all (\<lambda>ed. ed < length (edgeStore g)) es)
       (map vlabel (vertices g))"

definition dataInv :: "WDAGraph \<Rightarrow> bool" where
  "dataInv g \<longleftrightarrow>
     list_all (\<lambda>x. INT_MIN \<le> vweight x \<and> (vweight x = INT_MIN \<longrightarrow> edgeForHWPath x = None))
       (vertices g)"

text \<open>A graph file with three vertices in a row and no constraint.\<close>

definition sampleGraph :: string where
  "sampleGraph = ''V a'' @ [CHR 0x0A] @ ''V b'' @ [CHR 0x0A] @ ''V c'' @ [CHR 0x0A] @
     ''E AC- a b 5'' @ [CHR 0x0A] @ ''E G-T b c 4'' @ [CHR 0x0A]"


text \<open>The vertex order is topological: every edge starts strictly before it ends.\<close>

definition topological :: "WDAGraph \<Rightarrow> bool" where
  "topological g = list_all (\<lambda>e. estart e < eend e) (edgeStore g)"

text \<open>The weight and best incoming edge of a vertex, and the scan of its edges as a
  function on this pair alone (the weights of the other vertices are read from \<open>g\<close>).\<close>

definition own :: "WDAGraph \<Rightarrow> nat \<Rightarrow> int \<times> nat option" where
  "own g v = (vweight (vertices g ! v), edgeForHWPath (vertices g ! v))"

definition setOwn :: "WDAGraph \<Rightarrow> nat \<Rightarrow> int \<times> nat option \<Rightarrow> WDAGraph" where
  "setOwn g v p =
     g\<lparr>vertices := (vertices g)[v := (vertices g ! v)\<lparr>vweight := fst p, edgeForHWPath := snd p\<rparr>]\<rparr>"

definition candidate :: "WDAGraph \<Rightarrow> nat \<Rightarrow> nat \<Rightarrow> bool" where
  "candidate g v ed \<longleftrightarrow>
     vlabel (vertices g ! eend (edgeStore g ! ed)) = vlabel (vertices g ! v) \<and>
     \<not> (isStartConstrained g \<and> vweight (vertices g ! estart (edgeStore g ! ed)) = INT_MIN)"

definition pathWeight :: "WDAGraph \<Rightarrow> nat \<Rightarrow> int" where
  "pathWeight g ed = vweight (vertices g ! estart (edgeStore g ! ed)) + eweight (edgeStore g ! ed)"

fun scanOwn :: "WDAGraph \<Rightarrow> nat \<Rightarrow> nat list \<Rightarrow> int \<times> nat option \<Rightarrow> int \<times> nat option" where
  "scanOwn g v [] p = p"
| "scanOwn g v (ed # rest) p =
     (if candidate g v ed \<and> pathWeight g ed > fst p
      then scanOwn g v rest (pathWeight g ed, Some ed)
      else scanOwn g v rest p)"

text \<open>The graphs the engine is meant for: valid pointers, unique vertex labels, and the
  vertices in topological order.\<close>

definition niceGraph :: "WDAGraph \<Rightarrow> bool" where
  "niceGraph g \<longleftrightarrow> pointersValid g \<and> distinct (map vlabel (vertices g)) \<and> topological g"

text \<open>The weight and edge of a vertex after the first two phases of the loop body.\<close>

definition ownAfter :: "WDAGraph \<Rightarrow> bool \<Rightarrow> nat \<Rightarrow> nat list \<Rightarrow> int \<times> nat option" where
  "ownAfter g sf v es =
     scanOwn g v es (if startNode g = None \<or> \<not> sf then (0, edgeForHWPath (vertices g ! v))
                     else own g v)"

text \<open>The vertex that the last phase records when no end constraint is configured.\<close>

definition pick :: "WDAGraph \<Rightarrow> nat \<Rightarrow> nat option" where
  "pick g2 v =
     (case highestWeightNode g2 of
        None \<Rightarrow> Some v
      | Some h \<Rightarrow> if vweight (vertices g2 ! v) > vweight (vertices g2 ! h) then Some v else Some h)"

(*DEFS*)

section \<open>Properties of the scoring matrix and the builder\<close>

subsection \<open>The build on residue sequences\<close>

lemma gap_not_in_alphabet: "gapChar \<notin> set alphabet"
  by (simp add: alphabet_def createResidueMap_def gapChar_def)

lemma getIndex_alphabet: "\<forall>a\<in>set alphabet. \<exists>i. getIndex a = Some i \<and> i < 20"
  by (simp add: alphabet_def createResidueMap_def getIndex_def residueMap_def)

lemma getScore_valid: "validSymbol a \<Longrightarrow> validSymbol b \<Longrightarrow> \<exists>s. getScore a b = Some s"
proof (cases "a \<noteq> gapChar \<and> b \<noteq> gapChar")
  case True
  assume "validSymbol a" "validSymbol b"
  with True obtain i j where "getIndex a = Some i" "getIndex b = Some j"
    using getIndex_alphabet unfolding validSymbol_def by metis
  with True show ?thesis by (simp add: getScore_def)
next
  case False
  then show ?thesis by (auto simp: getScore_def)
qed

lemma sumOfPairsWeight_valid:
  assumes "validSymbol a" "validSymbol b" "validSymbol c"
  shows "\<exists>w. sumOfPairsWeight a b c = Some w"
proof -
  obtain x where "getScore a b = Some x" using getScore_valid [OF assms(1,2)] ..
  moreover obtain y where "getScore b c = Some y" using getScore_valid [OF assms(2,3)] ..
  moreover obtain z where "getScore a c = Some z" using getScore_valid [OF assms(1,3)] ..
  ultimately show ?thesis by (simp add: sumOfPairsWeight_def)
qed

lemma addEdge_valid:
  assumes "validSymbol a" "validSymbol b" "validSymbol c"
  shows "addEdge es a b c i j k = Some (es @ [edgeOf (i, j, k) (a, b, c)])"
proof -
  obtain w where "sumOfPairsWeight a b c = Some w"
    using sumOfPairsWeight_valid [OF assms] ..
  then show ?thesis by (simp add: addEdge_def edgeOf_def)
qed

lemma validSymbol_gap: "validSymbol gapChar"
  by (simp add: validSymbol_def)

lemma validSymbol_nth: "residues s \<Longrightarrow> i < length s \<Longrightarrow> validSymbol (s ! i)"
  by (simp add: residues_def validSymbol_def list_all_iff)

lemma vertexBody_valid:
  assumes "residues s1" "residues s2" "residues s3"
    and "i \<le> length s1" "j \<le> length s2" "k \<le> length s3"
  shows "vertexBody s1 s2 s3 i j k st =
     Some \<lparr>vertexStream = vertexStream st @ [(i, j, k)],
           edgeStream = edgeStream st @ map (edgeOf (i, j, k)) (columns s1 s2 s3 (i, j, k))\<rparr>"
proof -
  have eq: "i = length s1" if "\<not> i < length s1" using that assms(4) by simp
  have eq2: "j = length s2" if "\<not> j < length s2" using that assms(5) by simp
  have eq3: "k = length s3" if "\<not> k < length s3" using that assms(6) by simp
  note facts = addEdge_valid validSymbol_gap validSymbol_nth assms(1-3)
  show ?thesis
  proof (cases "i < length s1")
    case a: True
    show ?thesis
    proof (cases "j < length s2")
      case b: True
      show ?thesis
      proof (cases "k < length s3")
        case True
        with a b show ?thesis by (simp add: vertexBody_def columns_def Let_def facts)
      next
        case False
        with a b eq3 show ?thesis by (simp add: vertexBody_def columns_def Let_def facts)
      qed
    next
      case b: False
      show ?thesis
      proof (cases "k < length s3")
        case True
        with a b eq2 show ?thesis by (simp add: vertexBody_def columns_def Let_def facts)
      next
        case False
        with a b eq2 eq3 show ?thesis by (simp add: vertexBody_def columns_def Let_def facts)
      qed
    qed
  next
    case a: False
    show ?thesis
    proof (cases "j < length s2")
      case b: True
      show ?thesis
      proof (cases "k < length s3")
        case True
        with a b eq show ?thesis by (simp add: vertexBody_def columns_def Let_def facts)
      next
        case False
        with a b eq eq3 show ?thesis by (simp add: vertexBody_def columns_def Let_def facts)
      qed
    next
      case b: False
      show ?thesis
      proof (cases "k < length s3")
        case True
        with a b eq eq2 show ?thesis by (simp add: vertexBody_def columns_def Let_def facts)
      next
        case False
        with a b eq eq2 eq3 show ?thesis by (simp add: vertexBody_def columns_def Let_def facts)
      qed
    qed
  qed
qed

lemma seq3Loop_valid:
  assumes "residues s1" "residues s2" "residues s3"
    and "i \<le> length s1" "j \<le> length s2" "\<forall>k\<in>set ks. k \<le> length s3"
  shows "seq3Loop s1 s2 s3 i j ks st =
     Some \<lparr>vertexStream = vertexStream st @ map (\<lambda>k. (i, j, k)) ks,
           edgeStream = edgeStream st @ concat (map (\<lambda>k. edgesAt s1 s2 s3 (i, j, k)) ks)\<rparr>"
  using assms
  by (induction ks arbitrary: st) (simp_all add: vertexBody_valid edgesAt_def)

lemma seq2Loop_valid:
  assumes "residues s1" "residues s2" "residues s3"
    and "i \<le> length s1" "\<forall>j\<in>set js. j \<le> length s2"
  shows "seq2Loop s1 s2 s3 i js st =
     Some \<lparr>vertexStream = vertexStream st @ concat (map (\<lambda>j. map (\<lambda>k. (i, j, k)) [0..<Suc (length s3)]) js),
           edgeStream = edgeStream st @
             concat (map (\<lambda>j. concat (map (\<lambda>k. edgesAt s1 s2 s3 (i, j, k)) [0..<Suc (length s3)])) js)\<rparr>"
  using assms
  by (induction js arbitrary: st) (simp_all add: seq3Loop_valid del: upt_Suc)

lemma seq1Loop_valid:
  assumes "residues s1" "residues s2" "residues s3"
    and "\<forall>i\<in>set is. i \<le> length s1"
  shows "seq1Loop s1 s2 s3 is st =
     Some \<lparr>vertexStream = vertexStream st @
             concat (map (\<lambda>i. concat (map (\<lambda>j. map (\<lambda>k. (i, j, k)) [0..<Suc (length s3)])
                [0..<Suc (length s2)])) is),
           edgeStream = edgeStream st @
             concat (map (\<lambda>i. concat (map (\<lambda>j. concat (map (\<lambda>k. edgesAt s1 s2 s3 (i, j, k))
                [0..<Suc (length s3)])) [0..<Suc (length s2)])) is)\<rparr>"
  using assms
  by (induction "is" arbitrary: st) (simp_all add: seq2Loop_valid del: upt_Suc)

lemma concat_concat_map: "concat (concat xss) = concat (map concat xss)"
  by (induction xss) simp_all

lemma grid_nested:
  "grid n1 n2 n3 =
     concat (map (\<lambda>i. concat (map (\<lambda>j. map (\<lambda>k. (i, j, k)) [0..<Suc n3]) [0..<Suc n2])) [0..<Suc n1])"
  by (simp add: grid_def del: upt_Suc)

lemma concat_map_grid:
  "concat (map f (grid n1 n2 n3)) =
   concat (map (\<lambda>i. concat (map (\<lambda>j. concat (map (\<lambda>k. f (i, j, k)) [0..<Suc n3])) [0..<Suc n2])) [0..<Suc n1])"
  unfolding grid_nested by (simp add: map_concat comp_def concat_concat_map del: upt_Suc)

lemma buildGraphFile_valid:
  assumes "residues s1" "residues s2" "residues s3"
  shows "buildGraphFile s1 s2 s3 =
     Some \<lparr>vertexStream = grid (length s1) (length s2) (length s3),
           edgeStream = concat (map (edgesAt s1 s2 s3) (grid (length s1) (length s2) (length s3)))\<rparr>"
  unfolding buildGraphFile_def concat_map_grid
  using assms by (simp add: seq1Loop_valid grid_nested del: upt_Suc)





lemma residue_not_gap: "residues s \<Longrightarrow> i < length s \<Longrightarrow> s ! i \<noteq> gapChar"
  using gap_not_in_alphabet by (auto simp: residues_def list_all_length)

lemma columns_residueCount:
  assumes "residues s1" "residues s2" "residues s3" and "col \<in> set (columns s1 s2 s3 v)"
  shows "1 \<le> residueCount col"
proof -
  obtain i j k where v: "v = (i, j, k)" by (cases v)
  show ?thesis
    using assms(4) residue_not_gap [OF assms(1), of i] residue_not_gap [OF assms(2), of j]
      residue_not_gap [OF assms(3), of k]
    unfolding v columns_def residueCount_def Let_def
    by (auto split: if_splits)
qed

lemma monotonicAdvance_edgeOf: "1 \<le> residueCount col \<Longrightarrow> monotonicAdvance (edgeOf v col)"
  by (cases v; cases col) (auto simp: monotonicAdvance_def edgeOf_def residueCount_def split: if_splits)


lemma lineLabel_edgeOf: "lineLabel (edgeOf v col) = col"
  by (cases v; cases col) (simp add: edgeOf_def)

lemma getScore_gap: "r \<noteq> gapChar \<Longrightarrow> getScore r gapChar = Some gapCost"
  "r \<noteq> gapChar \<Longrightarrow> getScore gapChar r = Some gapCost" "getScore gapChar gapChar = Some 0"
  by (simp_all add: getScore_def)

lemma lineWeight_single: "residueCount col = 1 \<Longrightarrow> lineWeight (edgeOf v col) = 2 * gapCost"
  by (cases v; cases col)
    (auto simp: edgeOf_def residueCount_def sumOfPairsWeight_def getScore_gap split: if_splits)



lemma build_edges:
  assumes "residues seq1" "residues seq2" "residues seq3"
  obtains st where "buildGraphFile seq1 seq2 seq3 = Some st"
    and "\<And>e. e \<in> set (edgeStream st) \<Longrightarrow> \<exists>v col. e = edgeOf v col \<and> col \<in> set (columns seq1 seq2 seq3 v)"
proof -
  let ?st = "\<lparr>vertexStream = grid (length seq1) (length seq2) (length seq3),
           edgeStream = concat (map (edgesAt seq1 seq2 seq3) (grid (length seq1) (length seq2) (length seq3)))\<rparr>"
  have "\<exists>v col. e = edgeOf v col \<and> col \<in> set (columns seq1 seq2 seq3 v)"
    if "e \<in> set (edgeStream ?st)" for e
  proof -
    from that obtain v where "e \<in> set (edgesAt seq1 seq2 seq3 v)" by auto
    then show ?thesis unfolding edgesAt_def by (metis (no_types, lifting) image_iff list.set_map)
  qed
  with buildGraphFile_valid [OF assms] that show ?thesis by blast
qed


subsection \<open>Concrete builds\<close>

lemma residues_A: "residues ''A''" "residues ''C''" "residues []"
  by (simp_all add: residues_def alphabet_def createResidueMap_def)

lemma build_AC: "buildGraphFile ''A'' ''C'' [] = Some
  \<lparr>vertexStream = [(0, 0, 0), (0, 1, 0), (1, 0, 0), (1, 1, 0)],
     edgeStream =
       [\<lparr>lineLabel = (CHR ''A'', CHR ''-'', CHR ''-''),
           lineStart = (0, 0, 0), lineEnd = (1, 0, 0), lineWeight = - 12\<rparr>,
        \<lparr>lineLabel = (CHR ''-'', CHR ''C'', CHR ''-''),
           lineStart = (0, 0, 0), lineEnd = (0, 1, 0), lineWeight = - 12\<rparr>,
        \<lparr>lineLabel = (CHR ''A'', CHR ''C'', CHR ''-''),
           lineStart = (0, 0, 0), lineEnd = (1, 1, 0), lineWeight = - 12\<rparr>,
        \<lparr>lineLabel = (CHR ''A'', CHR ''-'', CHR ''-''),
           lineStart = (0, 1, 0), lineEnd = (1, 1, 0), lineWeight = - 12\<rparr>,
        \<lparr>lineLabel = (CHR ''-'', CHR ''C'', CHR ''-''),
           lineStart = (1, 0, 0), lineEnd = (1, 1, 0), lineWeight = - 12\<rparr>]\<rparr>"
  by code_simp


subsection \<open>Claims about the scoring matrix\<close>

lemma matrix_symmetric: "\<forall>i\<in>set [0..<20]. \<forall>j\<in>set [0..<20]. matrix ! i ! j = matrix ! j ! i"
  by code_simp

lemma matrix_sym: "i < 20 \<Longrightarrow> j < 20 \<Longrightarrow> matrix ! i ! j = matrix ! j ! i"
  using matrix_symmetric by simp

text \<open>
  C8.  For residues \<open>a\<close> and \<open>b\<close> of the 20-symbol alphabet, \<open>getScore a b\<close> and
  \<open>getScore b a\<close> return the same score; \<open>getScore\<close> of a residue and the gap symbol,
  in either order, returns \<open>gapCost\<close>; \<open>getScore\<close> of two gap symbols returns 0.
\<close>

theorem C8_getScore_symmetric:
  assumes "a \<in> set alphabet" "b \<in> set alphabet"
  shows "(\<exists>s. getScore a b = Some s \<and> getScore b a = Some s) \<and>
         getScore a gapChar = Some gapCost \<and> getScore gapChar a = Some gapCost \<and>
         getScore gapChar gapChar = Some 0"
proof -
  from assms obtain i j where ij: "getIndex a = Some i" "i < 20" "getIndex b = Some j" "j < 20"
    using getIndex_alphabet by blast
  from assms have ng: "a \<noteq> gapChar" "b \<noteq> gapChar"
    using gap_not_in_alphabet by auto
  have "getScore a b = Some (matrix ! i ! j)" "getScore b a = Some (matrix ! j ! i)"
    using ij ng by (simp_all add: getScore_def)
  moreover have "matrix ! i ! j = matrix ! j ! i"
    using ij matrix_sym by simp
  ultimately have "\<exists>s. getScore a b = Some s \<and> getScore b a = Some s" by simp
  moreover have "getScore a gapChar = Some gapCost" "getScore gapChar a = Some gapCost"
      "getScore gapChar gapChar = Some 0"
    using ng by (simp_all add: getScore_def)
  ultimately show ?thesis by simp
qed

theorem C8_witness:
  "CHR ''A'' \<in> set alphabet \<and> CHR ''R'' \<in> set alphabet \<and>
   getScore CHR ''A'' CHR ''R'' = Some (- 1) \<and> getScore CHR ''R'' CHR ''A'' = Some (- 1) \<and>
   getScore CHR ''A'' gapChar = Some (- 6) \<and> getScore gapChar CHR ''A'' = Some (- 6) \<and>
   getScore gapChar gapChar = Some 0"
proof -
  have m: "CHR ''A'' \<in> set alphabet" "CHR ''R'' \<in> set alphabet"
    by (simp_all add: alphabet_def createResidueMap_def)
  have "getScore CHR ''A'' CHR ''R'' = Some (- 1)"
    by (simp add: getScore_def getIndex_def residueMap_def createResidueMap_def gapChar_def matrix_def)
  with C8_getScore_symmetric [OF m] m show ?thesis
    by (auto simp: gapCost_def)
qed

subsection \<open>Claims about the builder\<close>



text \<open>
  C6.  On residue sequences the builder returns, and every edge of its edge stream obeys
  the monotonic-advance rule: each end coordinate is the start coordinate or one more, at
  least one is more, and the coordinates that advance are exactly the label positions that
  hold a residue, the others exactly those that hold the gap symbol.
\<close>

theorem C6_edges_monotonic:
  assumes "residues seq1" "residues seq2" "residues seq3"
  shows "\<exists>st. buildGraphFile seq1 seq2 seq3 = Some st \<and>
     (\<forall>e\<in>set (edgeStream st). monotonicAdvance e)"
proof -
  from build_edges [OF assms] obtain st where st: "buildGraphFile seq1 seq2 seq3 = Some st"
    and e: "\<And>e. e \<in> set (edgeStream st) \<Longrightarrow> \<exists>v col. e = edgeOf v col \<and> col \<in> set (columns seq1 seq2 seq3 v)"
    by blast
  have "monotonicAdvance e" if "e \<in> set (edgeStream st)" for e
  proof -
    from e [OF that] obtain v col where col: "e = edgeOf v col" "col \<in> set (columns seq1 seq2 seq3 v)"
      by blast
    show ?thesis
      unfolding col(1) using columns_residueCount [OF assms col(2)] by (rule monotonicAdvance_edgeOf)
  qed
  with st show ?thesis by blast
qed

theorem C6_witness:
  "residues ''A'' \<and> residues ''C'' \<and> residues [] \<and>
   (\<exists>st. buildGraphFile ''A'' ''C'' [] = Some st \<and> length (edgeStream st) = 5 \<and>
      list_all monotonicAdvance (edgeStream st))"
  using C6_edges_monotonic [OF residues_A] residues_A build_AC
  by (auto simp: list_all_iff)

text \<open>
  C10.  On residue sequences the builder returns, and every edge of its edge stream whose
  label holds exactly one residue and two gap symbols has the weight \<open>2 * gapCost = -12\<close>.
\<close>

theorem C10_single_advance_weight:
  assumes "residues seq1" "residues seq2" "residues seq3"
  shows "\<exists>st. buildGraphFile seq1 seq2 seq3 = Some st \<and>
     (\<forall>e\<in>set (edgeStream st).
        residueCount (lineLabel e) = 1 \<longrightarrow> lineWeight e = 2 * gapCost \<and> lineWeight e = - 12)"
proof -
  from build_edges [OF assms] obtain st where st: "buildGraphFile seq1 seq2 seq3 = Some st"
    and e: "\<And>e. e \<in> set (edgeStream st) \<Longrightarrow> \<exists>v col. e = edgeOf v col \<and> col \<in> set (columns seq1 seq2 seq3 v)"
    by blast
  have "lineWeight e = 2 * gapCost \<and> lineWeight e = - 12"
    if "e \<in> set (edgeStream st)" "residueCount (lineLabel e) = 1" for e
  proof -
    from e [OF that(1)] obtain v col where col: "e = edgeOf v col"
      by blast
    from that(2) have "residueCount col = 1"
      unfolding col by (simp add: lineLabel_edgeOf)
    then show ?thesis
      unfolding col using lineWeight_single [of col v] by (simp add: gapCost_def)
  qed
  with st show ?thesis by blast
qed

theorem C10_witness:
  "residues ''A'' \<and> residues ''C'' \<and> residues [] \<and>
   (\<exists>st. buildGraphFile ''A'' ''C'' [] = Some st \<and>
      map (\<lambda>e. residueCount (lineLabel e)) (edgeStream st) = [1, 1, 2, 1, 1] \<and>
      map lineWeight (filter (\<lambda>e. residueCount (lineLabel e) = 1) (edgeStream st)) = [- 12, - 12, - 12, - 12])"
  using C10_single_advance_weight [OF residues_A] residues_A build_AC
  by (auto simp: residueCount_def gapChar_def)




section \<open>Properties of the engine\<close>

subsection \<open>Loading\<close>






subsection \<open>The loop body\<close>

lemma nth_update_label:
  "vlabel x = vlabel (xs ! v) \<Longrightarrow> vlabel (xs[v := x] ! u) = vlabel (xs ! u)"
  by (cases "v < length xs"; cases "u = v") (simp_all add: not_less list_update_beyond)

lemma enterVertex_fields [simp]:
  "edgeStore (enterVertex g sf v) = edgeStore g"
  "edges (enterVertex g sf v) = edges g"
  "startNode (enterVertex g sf v) = startNode g"
  "endNode (enterVertex g sf v) = endNode g"
  "verticeMap (enterVertex g sf v) = verticeMap g"
  "edgeWeights (enterVertex g sf v) = edgeWeights g"
  "edgeFrequencies (enterVertex g sf v) = edgeFrequencies g"
  "length (vertices (enterVertex g sf v)) = length (vertices g)"
  by (simp_all add: enterVertex_def split: option.splits)

lemma enterVertex_label [simp]:
  "vlabel (vertices (enterVertex g sf v) ! u) = vlabel (vertices g ! u)"
  by (simp add: enterVertex_def nth_update_label split: option.splits)

lemma enterVertex_other:
  "u \<noteq> v \<Longrightarrow> vertices (enterVertex g sf v) ! u = vertices g ! u"
  by (simp add: enterVertex_def split: option.splits)

lemma visitVertex_phases:
  "visitVertex g sf v =
     (if skipVertex g sf v then Next g sf
      else case edges g (vlabel (vertices g ! v)) of
             None \<Rightarrow> Fault
           | Some es \<Rightarrow> chooseBest (scanEdges (enterVertex g sf v) v es) (sf \<or> isStartConstrained g) v)"
proof -
  have sf: "(case startNode g of Some sn \<Rightarrow> True | None \<Rightarrow> sf) = (sf \<or> isStartConstrained g)"
    by (simp add: isStartConstrained_def split: option.splits)
  show ?thesis
    unfolding visitVertex_def Let_def skipVertex_def [symmetric] enterVertex_def [symmetric]
      chooseBest_def [symmetric] sf
    by simp
qed

lemma scanEdges_fields [simp]:
  "edgeStore (scanEdges g v es) = edgeStore g"
  "edges (scanEdges g v es) = edges g"
  "startNode (scanEdges g v es) = startNode g"
  "endNode (scanEdges g v es) = endNode g"
  "highestWeightNode (scanEdges g v es) = highestWeightNode g"
  "verticeMap (scanEdges g v es) = verticeMap g"
  "edgeWeights (scanEdges g v es) = edgeWeights g"
  "edgeFrequencies (scanEdges g v es) = edgeFrequencies g"
  "length (vertices (scanEdges g v es)) = length (vertices g)"
  by (induction es arbitrary: g; simp add: Let_def)+

lemma scanEdges_other:
  "u \<noteq> v \<Longrightarrow> vertices (scanEdges g v es) ! u = vertices g ! u"
  by (induction es arbitrary: g) (simp_all add: Let_def)

lemma scanEdges_label [simp]:
  "vlabel (vertices (scanEdges g v es) ! u) = vlabel (vertices g ! u)"
proof (induction es arbitrary: g)
  case Nil
  then show ?case by simp
next
  case (Cons ed es)
  have "vlabel ((vertices g)[v := (vertices g ! v)\<lparr>vweight := w, edgeForHWPath := e\<rparr>] ! u)
      = vlabel (vertices g ! u)" for w e
    by (simp add: nth_update_label)
  with Cons show ?case by (simp add: Let_def)
qed



lemma enterVertex_hwn:
  "highestWeightNode (enterVertex g sf v) =
     (if startNode g \<noteq> None \<and> \<not> sf then Some v else highestWeightNode g)"
  by (auto simp: enterVertex_def split: option.splits)

lemma enterVertex_same: "startNode g \<noteq> None \<Longrightarrow> sf \<Longrightarrow> enterVertex g sf v = g"
  by (auto simp: enterVertex_def split: option.splits)



lemma staticEq_refl [simp]: "staticEq g g"
  by (simp add: staticEq_def)

lemma staticEq_trans: "staticEq g2 g1 \<Longrightarrow> staticEq g1 g \<Longrightarrow> staticEq g2 g"
  by (simp add: staticEq_def)

lemma staticEq_sym: "staticEq g1 g \<Longrightarrow> staticEq g g1"
  by (simp add: staticEq_def)

lemma staticEq_length: "staticEq g' g \<Longrightarrow> length (vertices g') = length (vertices g)"
  unfolding staticEq_def by (metis length_map)

lemma staticEq_label:
  "staticEq g' g \<Longrightarrow> u < length (vertices g) \<Longrightarrow> vlabel (vertices g' ! u) = vlabel (vertices g ! u)"
proof -
  assume s: "staticEq g' g" and u: "u < length (vertices g)"
  then have "map vlabel (vertices g') ! u = map vlabel (vertices g) ! u" by (simp add: staticEq_def)
  with u staticEq_length [OF s] show ?thesis by simp
qed

lemma staticEq_hwn [simp]: "staticEq (g\<lparr>highestWeightNode := h\<rparr>) g"
  by (simp add: staticEq_def)

lemma staticEq_pointersValid: "staticEq g' g \<Longrightarrow> pointersValid g \<Longrightarrow> pointersValid g'"
proof -
  assume s: "staticEq g' g" and p: "pointersValid g"
  have eqs: "length (vertices g') = length (vertices g)" "edgeStore g' = edgeStore g"
    "edges g' = edges g" "startNode g' = startNode g" "endNode g' = endNode g"
    "map vlabel (vertices g') = map vlabel (vertices g)"
    using s staticEq_length [OF s] by (simp_all add: staticEq_def)
  from p show ?thesis unfolding pointersValid_def eqs .
qed

lemma map_vlabel_eqI:
  assumes "length xs = length ys" "\<And>u. vlabel (xs ! u) = vlabel (ys ! u)"
  shows "map vlabel xs = map vlabel ys"
  using assms by (simp add: list_eq_iff_nth_eq)

lemma enterVertex_staticEq [simp]: "staticEq (enterVertex g sf v) g"
proof -
  have "map vlabel (vertices (enterVertex g sf v)) = map vlabel (vertices g)"
    by (rule map_vlabel_eqI) simp_all
  then show ?thesis by (simp add: staticEq_def)
qed

lemma scanEdges_staticEq [simp]: "staticEq (scanEdges g v es) g"
proof -
  have "map vlabel (vertices (scanEdges g v es)) = map vlabel (vertices g)"
    by (rule map_vlabel_eqI) simp_all
  then show ?thesis by (simp add: staticEq_def)
qed

lemma chooseBest_result:
  "chooseBest g2 sf1 v = Next g2 sf1 \<or>
   chooseBest g2 sf1 v = Next (g2\<lparr>highestWeightNode := Some v\<rparr>) sf1 \<or>
   chooseBest g2 sf1 v = Stop (g2\<lparr>highestWeightNode := Some v\<rparr>)"
  by (simp add: chooseBest_def split: option.splits)

lemma visitVertex_frame:
  assumes "visitVertex g sf v = Next g' sf' \<or> visitVertex g sf v = Stop g'"
  shows "staticEq g' g" and "\<And>u. u \<noteq> v \<Longrightarrow> vertices g' ! u = vertices g ! u"
proof -
  have "staticEq g' g \<and> (\<forall>u. u \<noteq> v \<longrightarrow> vertices g' ! u = vertices g ! u)"
  proof (cases "skipVertex g sf v")
    case True
    with assms show ?thesis by (simp add: visitVertex_phases)
  next
    case False
    with assms obtain es where es: "edges g (vlabel (vertices g ! v)) = Some es"
      by (auto simp: visitVertex_phases split: option.splits)
    define g2 where "g2 = scanEdges (enterVertex g sf v) v es"
    have vis: "visitVertex g sf v = chooseBest g2 (sf \<or> isStartConstrained g) v"
      using False es by (simp add: visitVertex_phases g2_def)
    have s2: "staticEq g2 g"
      unfolding g2_def using staticEq_trans [OF scanEdges_staticEq enterVertex_staticEq] .
    have o2: "vertices g2 ! u = vertices g ! u" if "u \<noteq> v" for u
      using that by (simp add: g2_def scanEdges_other enterVertex_other)
    from assms have "g' = g2 \<or> g' = g2\<lparr>highestWeightNode := Some v\<rparr>"
      unfolding vis using chooseBest_result [of g2 "sf \<or> isStartConstrained g" v] by auto
    moreover have "staticEq (g2\<lparr>highestWeightNode := Some v\<rparr>) g"
      using staticEq_trans [OF staticEq_hwn s2] .
    ultimately show ?thesis
      using s2 o2 by (elim disjE) simp_all
  qed
  then show "staticEq g' g" and "\<And>u. u \<noteq> v \<Longrightarrow> vertices g' ! u = vertices g ! u" by simp_all
qed

lemma forVertices_frame:
  assumes "forVertices g sf rest = Some g'"
  shows "staticEq g' g \<and> (\<forall>u. u \<notin> set rest \<longrightarrow> vertices g' ! u = vertices g ! u)"
  using assms
proof (induction rest arbitrary: g sf)
  case Nil
  then show ?case by simp
next
  case (Cons v rest)
  show ?case
  proof (cases "visitVertex g sf v")
    case (Next g1 sf1)
    with Cons.prems have "forVertices g1 sf1 rest = Some g'" by simp
    from Cons.IH [OF this]
    have 1: "staticEq g' g1" "\<And>u. u \<notin> set rest \<Longrightarrow> vertices g' ! u = vertices g1 ! u"
      by simp_all
    from Next have 2: "staticEq g1 g" "\<And>u. u \<noteq> v \<Longrightarrow> vertices g1 ! u = vertices g ! u"
      using visitVertex_frame [of g sf v g1 sf1] by simp_all
    show ?thesis using staticEq_trans [OF 1(1) 2(1)] 1(2) 2(2) by simp
  next
    case (Stop g1)
    with Cons.prems have "g' = g1" by simp
    with visitVertex_frame [of g sf v g1] Stop show ?thesis by auto
  next
    case Fault
    with Cons.prems show ?thesis by simp
  qed
qed



lemma pointersValid_edges:
  assumes "pointersValid g" "v < length (vertices g)"
  obtains es where "edges g (vlabel (vertices g ! v)) = Some es" "\<forall>ed\<in>set es. ed < length (edgeStore g)"
proof -
  from assms have "case edges g (vlabel (vertices g ! v)) of None \<Rightarrow> False
                   | Some es \<Rightarrow> list_all (\<lambda>ed. ed < length (edgeStore g)) es"
    unfolding pointersValid_def list_all_length by simp
  then show ?thesis using that by (auto simp: list_all_iff split: option.splits)
qed









text \<open>
  C2: the code does not do what the claim says.  On the sample graph the winning path has
  the edges labelled \<open>AC-\<close> and \<open>G-T\<close>, in this order; \<open>getPath\<close> reverses the
  streamed string character by character, so it returns the labels in path order but each
  of them spelled backwards (\<open>-CA\<close>, then \<open>T-G\<close>).
\<close>

theorem C2_labels_reversed:
  "map_option (\<lambda>g. (map elabel (edgeStore g), map edgeForHWPath (vertices g),
                     highestWeightNode g, getPath g))
     (Option.bind (buildGraph sampleGraph) findHighestWeightPath)
   = Some ([''AC-'', ''G-T''], [None, Some 0, Some 1], Some 2,
           Some ([CHR 0x0A] @ ''-CA'' @ [CHR 0x0A] @ ''T-G''))"
  by code_simp

text \<open>
  C4: the code does not do what the claim says.  Two edges share the label \<open>x\<close>, and the
  frequency counter of \<open>x\<close> is 1 after loading: the post-increment's old value is
  assigned back to the entry.
\<close>

theorem C4_frequency_stays_one:
  "map_option (\<lambda>g. (map elabel (edgeStore g), edgeFrequencies g ''x''))
     (buildGraph (''V a'' @ [CHR 0x0A] @ ''V b'' @ [CHR 0x0A] @
                  ''E x a b 1'' @ [CHR 0x0A] @ ''E x a b 2'' @ [CHR 0x0A]))
   = Some ([''x'', ''x''], Some 1)"
  by code_simp

lemma label_eq_iff:
  assumes "distinct (map vlabel (vertices g))" "a < length (vertices g)" "b < length (vertices g)"
  shows "(vlabel (vertices g ! a) = vlabel (vertices g ! b)) = (a = b)"
  using nth_eq_iff_index_eq [OF assms(1), of a b] assms(2,3) by simp





lemma dataInv_hwn [simp]: "dataInv (g\<lparr>highestWeightNode := h\<rparr>) = dataInv g"
  by (simp add: dataInv_def)



lemma staticEq_distinct:
  "staticEq g' g \<Longrightarrow> distinct (map vlabel (vertices g)) \<Longrightarrow> distinct (map vlabel (vertices g'))"
  by (simp add: staticEq_def)

lemma staticEq_fields:
  "staticEq g' g \<Longrightarrow> startNode g' = startNode g"
  "staticEq g' g \<Longrightarrow> endNode g' = endNode g"
  "staticEq g' g \<Longrightarrow> edges g' = edges g"
  "staticEq g' g \<Longrightarrow> edgeStore g' = edgeStore g"
  by (simp_all add: staticEq_def)









lemma scanOwn_mono: "fst p \<le> fst (scanOwn g v es p)"
proof (induction es arbitrary: p)
  case Nil
  then show ?case by simp
next
  case (Cons ed es)
  show ?case
  proof (cases "candidate g v ed \<and> pathWeight g ed > fst p")
    case True
    then have "fst p \<le> fst (pathWeight g ed, Some ed)" by simp
    also have "\<dots> \<le> fst (scanOwn g v es (pathWeight g ed, Some ed))" by (rule Cons.IH)
    finally show ?thesis using True by simp
  next
    case False
    then show ?thesis using Cons.IH [of p] by auto
  qed
qed

lemma scanOwn_idem: "scanOwn g v es (scanOwn g v es p) = scanOwn g v es p"
proof (induction es arbitrary: p)
  case Nil
  then show ?case by simp
next
  case (Cons ed es)
  define q where "q = (if candidate g v ed \<and> pathWeight g ed > fst p then (pathWeight g ed, Some ed) else p)"
  define r where "r = scanOwn g v es q"
  have r: "scanOwn g v (ed # es) p = r" by (simp add: r_def q_def)
  have "fst q \<le> fst r" unfolding r_def by (rule scanOwn_mono)
  moreover have "candidate g v ed \<Longrightarrow> pathWeight g ed \<le> fst q" by (simp add: q_def)
  ultimately have "\<not> (candidate g v ed \<and> pathWeight g ed > fst r)" by auto
  then have "scanOwn g v (ed # es) r = scanOwn g v es r" by (simp only: scanOwn.simps if_not_P if_False)
  also have "\<dots> = r" unfolding r_def by (rule Cons.IH)
  finally show ?case unfolding r .
qed

lemma scanOwn_edge: "scanOwn g v es (w, snd (scanOwn g v es (w, e))) = scanOwn g v es (w, e)"
proof (induction es arbitrary: w e)
  case Nil
  then show ?case by simp
next
  case (Cons ed es)
  show ?case
  proof (cases "candidate g v ed \<and> pathWeight g ed > w")
    case True
    then show ?thesis by simp
  next
    case False
    then show ?thesis using Cons.IH [of w e] by auto
  qed
qed

lemma scanOwn_cong:
  assumes "\<forall>ed\<in>set es. candidate g' v ed = candidate g v ed"
    and "\<forall>ed\<in>set es. candidate g v ed \<longrightarrow> pathWeight g' ed = pathWeight g ed"
  shows "scanOwn g' v es p = scanOwn g v es p"
  using assms by (induction es arbitrary: p) auto

lemma setOwn_fields [simp]:
  "edgeStore (setOwn g v p) = edgeStore g"
  "edges (setOwn g v p) = edges g"
  "startNode (setOwn g v p) = startNode g"
  "endNode (setOwn g v p) = endNode g"
  "highestWeightNode (setOwn g v p) = highestWeightNode g"
  "length (vertices (setOwn g v p)) = length (vertices g)"
  by (simp_all add: setOwn_def)

lemma setOwn_label [simp]: "vlabel (vertices (setOwn g v p) ! u) = vlabel (vertices g ! u)"
  by (simp add: setOwn_def nth_update_label)

lemma setOwn_other: "u \<noteq> v \<Longrightarrow> vertices (setOwn g v p) ! u = vertices g ! u"
  by (simp add: setOwn_def)

lemma setOwn_own: "v < length (vertices g) \<Longrightarrow> own (setOwn g v p) v = p"
  by (simp add: setOwn_def own_def)

lemma setOwn_setOwn: "setOwn (setOwn g v p) v q = setOwn g v q"
  by (cases "v < length (vertices g)") (simp_all add: setOwn_def not_less list_update_beyond)

lemma setOwn_id: "setOwn g v (own g v) = g"
  by (simp add: setOwn_def own_def)

lemma scanEdges_Cons:
  "scanEdges g v (ed # es) =
     (if candidate g v ed \<and> pathWeight g ed > fst (own g v)
      then scanEdges (setOwn g v (pathWeight g ed, Some ed)) v es
      else scanEdges g v es)"
  by (auto simp: candidate_def pathWeight_def own_def setOwn_def Let_def)

text \<open>When no edge that enters the vertex starts at the vertex itself, the scan is \<open>scanOwn\<close>.\<close>

lemma scanEdges_scanOwn:
  assumes "v < length (vertices g)"
    and "\<forall>ed\<in>set es. vlabel (vertices g ! eend (edgeStore g ! ed)) = vlabel (vertices g ! v)
           \<longrightarrow> estart (edgeStore g ! ed) \<noteq> v"
  shows "scanEdges g v es = setOwn g v (scanOwn g v es (own g v))"
  using assms
proof (induction es arbitrary: g)
  case Nil
  then show ?case by (simp add: setOwn_id)
next
  case (Cons ed es)
  show ?case
  proof (cases "candidate g v ed \<and> pathWeight g ed > fst (own g v)")
    case True
    define g' where "g' = setOwn g v (pathWeight g ed, Some ed)"
    have step: "scanEdges g v (ed # es) = scanEdges g' v es"
      using True by (simp only: scanEdges_Cons g'_def if_P if_True)
    have cand: "candidate g' v x = candidate g v x" if "x \<in> set es" for x
    proof (cases "vlabel (vertices g ! eend (edgeStore g ! x)) = vlabel (vertices g ! v)")
      case True
      with Cons.prems(2) that have "estart (edgeStore g ! x) \<noteq> v" by simp
      then show ?thesis
        by (simp add: candidate_def g'_def isStartConstrained_def setOwn_other)
    next
      case False
      then show ?thesis by (simp add: candidate_def g'_def)
    qed
    have pw: "pathWeight g' x = pathWeight g x" if "x \<in> set es" "candidate g v x" for x
    proof -
      from that Cons.prems(2) have "estart (edgeStore g ! x) \<noteq> v" by (simp add: candidate_def)
      then show ?thesis by (simp add: pathWeight_def g'_def setOwn_other)
    qed
    have "scanEdges g' v es = setOwn g' v (scanOwn g' v es (own g' v))"
    proof (rule Cons.IH)
      show "v < length (vertices g')" using Cons.prems(1) by (simp add: g'_def)
      show "\<forall>ed\<in>set es. vlabel (vertices g' ! eend (edgeStore g' ! ed)) = vlabel (vertices g' ! v)
           \<longrightarrow> estart (edgeStore g' ! ed) \<noteq> v"
        using Cons.prems(2) by (simp add: g'_def)
    qed
    also have "own g' v = (pathWeight g ed, Some ed)"
      using Cons.prems(1) by (simp add: g'_def setOwn_own)
    also have "scanOwn g' v es (pathWeight g ed, Some ed) = scanOwn g v es (pathWeight g ed, Some ed)"
      using cand pw by (intro scanOwn_cong) simp_all
    also have "setOwn g' v (scanOwn g v es (pathWeight g ed, Some ed))
        = setOwn g v (scanOwn g v es (pathWeight g ed, Some ed))"
      by (simp add: g'_def setOwn_setOwn)
    also have "scanOwn g v es (pathWeight g ed, Some ed) = scanOwn g v (ed # es) (own g v)"
      using True by simp
    finally show ?thesis using step by simp
  next
    case False
    then have "scanEdges g v (ed # es) = scanEdges g v es"
      by (simp only: scanEdges_Cons if_not_P if_False)
    moreover have "scanOwn g v (ed # es) (own g v) = scanOwn g v es (own g v)"
      using False by (simp only: scanOwn.simps if_not_P if_False)
    ultimately show ?thesis using Cons by simp
  qed
qed

lemma staticEq_niceGraph: "staticEq g' g \<Longrightarrow> niceGraph g \<Longrightarrow> niceGraph g'"
  unfolding niceGraph_def
  using staticEq_pointersValid [of g' g] staticEq_distinct [of g' g]
  by (simp add: topological_def staticEq_fields)

lemma graph_eqI:
  "staticEq b a \<Longrightarrow> vertices b = vertices a \<Longrightarrow> highestWeightNode b = highestWeightNode a \<Longrightarrow> b = a"
  by (rule WDAGraph.equality) (simp_all add: staticEq_def)

lemma entering_before:
  assumes "niceGraph g" "v < length (vertices g)" "edges g (vlabel (vertices g ! v)) = Some es"
    and "ed \<in> set es"
    and "vlabel (vertices g ! eend (edgeStore g ! ed)) = vlabel (vertices g ! v)"
  shows "estart (edgeStore g ! ed) < v"
proof -
  have pv: "pointersValid g" and d: "distinct (map vlabel (vertices g))" and t: "topological g"
    using assms(1) by (simp_all add: niceGraph_def)
  from pointersValid_edges [OF pv assms(2)] assms(3,4) have "ed < length (edgeStore g)" by auto
  then have m: "edgeStore g ! ed \<in> set (edgeStore g)" by simp
  with pv have "eend (edgeStore g ! ed) < length (vertices g)"
    by (auto simp: pointersValid_def list_all_iff)
  with label_eq_iff [OF d this assms(2)] assms(5) have "eend (edgeStore g ! ed) = v" by simp
  moreover from t m have "estart (edgeStore g ! ed) < eend (edgeStore g ! ed)"
    by (auto simp: topological_def list_all_iff)
  ultimately show ?thesis by simp
qed

lemma pointersValid_eend:
  assumes "pointersValid g" "v < length (vertices g)" "edges g (vlabel (vertices g ! v)) = Some es"
    and "ed \<in> set es"
  shows "eend (edgeStore g ! ed) < length (vertices g)"
proof -
  from pointersValid_edges [OF assms(1,2)] assms(3,4) have "ed < length (edgeStore g)" by auto
  then have "edgeStore g ! ed \<in> set (edgeStore g)" by simp
  with assms(1) show ?thesis by (auto simp: pointersValid_def list_all_iff)
qed

text \<open>The scan of a vertex reads only the vertices before it.\<close>

lemma scanOwn_agree:
  assumes "niceGraph a" "staticEq b a" "v < length (vertices a)"
    and "edges a (vlabel (vertices a ! v)) = Some es"
    and "\<forall>u<v. vertices b ! u = vertices a ! u"
  shows "scanOwn b v es p = scanOwn a v es p"
proof (rule scanOwn_cong)
  have pv: "pointersValid a" using assms(1) by (simp add: niceGraph_def)
  have E: "edgeStore b = edgeStore a" and S: "isStartConstrained b = isStartConstrained a"
    using assms(2) by (simp_all add: staticEq_fields isStartConstrained_def)
  have lab: "(vlabel (vertices b ! eend (edgeStore a ! ed)) = vlabel (vertices b ! v))
      = (vlabel (vertices a ! eend (edgeStore a ! ed)) = vlabel (vertices a ! v))"
    if "ed \<in> set es" for ed
    using staticEq_label [OF assms(2) pointersValid_eend [OF pv assms(3,4) that]]
      staticEq_label [OF assms(2,3)] by simp
  have w: "vertices b ! estart (edgeStore a ! ed) = vertices a ! estart (edgeStore a ! ed)"
    if "ed \<in> set es" "vlabel (vertices a ! eend (edgeStore a ! ed)) = vlabel (vertices a ! v)" for ed
    using entering_before [OF assms(1,3,4) that] assms(5) by simp
  show "\<forall>ed\<in>set es. candidate b v ed = candidate a v ed"
    using lab w by (auto simp: candidate_def E S)
  show "\<forall>ed\<in>set es. candidate a v ed \<longrightarrow> pathWeight b ed = pathWeight a ed"
    using w by (simp add: candidate_def pathWeight_def E)
qed

lemma visitVertex_nice:
  assumes "niceGraph g" "v < length (vertices g)" "\<not> skipVertex g sf v"
    and "edges g (vlabel (vertices g ! v)) = Some es"
  shows "visitVertex g sf v =
     chooseBest (setOwn (enterVertex g sf v) v (ownAfter g sf v es)) (sf \<or> isStartConstrained g) v"
proof -
  define g1 where "g1 = enterVertex g sf v"
  have s1: "staticEq g1 g" by (simp add: g1_def)
  have n1: "niceGraph g1" using staticEq_niceGraph [OF s1 assms(1)] .
  have v1: "v < length (vertices g1)" using assms(2) by (simp add: g1_def)
  have es1: "edges g1 (vlabel (vertices g1 ! v)) = Some es" using assms(4) by (simp add: g1_def)
  have "scanEdges g1 v es = setOwn g1 v (scanOwn g1 v es (own g1 v))"
  proof (rule scanEdges_scanOwn [OF v1], intro ballI impI)
    fix ed assume "ed \<in> set es"
      "vlabel (vertices g1 ! eend (edgeStore g1 ! ed)) = vlabel (vertices g1 ! v)"
    from entering_before [OF n1 v1 es1 this] show "estart (edgeStore g1 ! ed) \<noteq> v" by simp
  qed
  moreover have "scanOwn g1 v es p = scanOwn g v es p" for p
    using scanOwn_agree [OF assms(1) s1 assms(2,4)] by (simp add: g1_def enterVertex_other)
  moreover have "own g1 v = (if startNode g = None \<or> \<not> sf then (0, edgeForHWPath (vertices g ! v))
                     else own g v)"
    using assms(2) by (auto simp: g1_def own_def enterVertex_def split: option.splits)
  ultimately have "scanEdges g1 v es = setOwn g1 v (ownAfter g sf v es)"
    by (simp add: ownAfter_def)
  then show ?thesis
    using assms(3,4) by (simp add: visitVertex_phases g1_def)
qed

lemma chooseBest_unconstrained:
  assumes "endNode g2 = None"
  shows "\<exists>h'. (chooseBest g2 sf1 v = Next (g2\<lparr>highestWeightNode := Some h'\<rparr>) sf1) \<and>
     (h' = v \<or> highestWeightNode g2 = Some h') \<and>
     vweight (vertices g2 ! v) \<le> vweight (vertices g2 ! h') \<and>
     (\<forall>h. highestWeightNode g2 = Some h \<longrightarrow> vweight (vertices g2 ! h) \<le> vweight (vertices g2 ! h'))"
proof (cases "highestWeightNode g2")
  case None
  with assms show ?thesis by (intro exI [of _ v]) (simp add: chooseBest_def)
next
  case (Some h)
  show ?thesis
  proof (cases "vweight (vertices g2 ! v) > vweight (vertices g2 ! h)")
    case True
    with Some assms show ?thesis by (intro exI [of _ v]) (simp add: chooseBest_def)
  next
    case False
    have "g2\<lparr>highestWeightNode := Some h\<rparr> = g2" using Some by simp
    with False Some assms show ?thesis by (intro exI [of _ h]) (simp add: chooseBest_def)
  qed
qed

lemma visitVertex_unconstrained:
  assumes "startNode g = None" "endNode g = None" "v < length (vertices g)"
    and "edges g (vlabel (vertices g ! v)) = Some es"
  shows "\<exists>g' h'. visitVertex g sf v = Next g' sf \<and> highestWeightNode g' = Some h' \<and>
     (h' = v \<or> highestWeightNode g = Some h') \<and>
     vweight (vertices g' ! v) \<le> vweight (vertices g' ! h') \<and>
     (\<forall>h. highestWeightNode g = Some h \<longrightarrow> vweight (vertices g' ! h) \<le> vweight (vertices g' ! h'))"
proof -
  define g2 where "g2 = scanEdges (enterVertex g sf v) v es"
  have vis: "visitVertex g sf v = chooseBest g2 sf v"
    using assms by (simp add: visitVertex_phases skipVertex_def g2_def isStartConstrained_def)
  have e2: "endNode g2 = None" using assms(2) by (simp add: g2_def)
  have h2: "highestWeightNode g2 = highestWeightNode g"
    using assms(1) by (simp add: g2_def enterVertex_hwn)
  from chooseBest_unconstrained [OF e2, of sf v] obtain h' where
    h': "chooseBest g2 sf v = Next (g2\<lparr>highestWeightNode := Some h'\<rparr>) sf"
      "h' = v \<or> highestWeightNode g2 = Some h'"
      "vweight (vertices g2 ! v) \<le> vweight (vertices g2 ! h')"
      "\<forall>h. highestWeightNode g2 = Some h \<longrightarrow> vweight (vertices g2 ! h) \<le> vweight (vertices g2 ! h')"
    by blast
  show ?thesis
    using vis h' h2
    by (intro exI [of _ "g2\<lparr>highestWeightNode := Some h'\<rparr>"] exI [of _ h']) simp
qed

text \<open>Without constraints the vertex recorded at the end of the scan has the greatest weight
  among the vertices still to visit and the vertex recorded so far.\<close>

lemma forVertices_best_is_max:
  assumes "startNode g = None" "endNode g = None" "pointersValid g"
    and "forVertices g sf [i..<length (vertices g)] = Some g1"
    and "\<forall>h. highestWeightNode g = Some h \<longrightarrow> h < i"
  shows "(\<forall>u. (i \<le> u \<and> u < length (vertices g)) \<or> highestWeightNode g = Some u \<longrightarrow>
           (\<exists>H. highestWeightNode g1 = Some H \<and>
                vweight (vertices g1 ! u) \<le> vweight (vertices g1 ! H)))"
  using assms
proof (induction "length (vertices g) - i" arbitrary: i g)
  case 0
  then have "[i..<length (vertices g)] = []" by simp
  with 0 have "g1 = g" by simp
  with 0 show ?case by auto
next
  case (Suc k)
  then have il: "i < length (vertices g)" by simp
  then have upt: "[i..<length (vertices g)] = i # [Suc i..<length (vertices g)]"
    by (simp add: upt_conv_Cons)
  from pointersValid_edges [OF Suc.prems(3) il] obtain es where
    es: "edges g (vlabel (vertices g ! i)) = Some es" by blast
  from visitVertex_unconstrained [OF Suc.prems(1,2) il es, of sf] obtain g' h' where
    v: "visitVertex g sf i = Next g' sf" "highestWeightNode g' = Some h'"
      "h' = i \<or> highestWeightNode g = Some h'"
      "vweight (vertices g' ! i) \<le> vweight (vertices g' ! h')"
      "\<forall>h. highestWeightNode g = Some h \<longrightarrow> vweight (vertices g' ! h) \<le> vweight (vertices g' ! h')"
    by blast
  have s: "staticEq g' g" using visitVertex_frame(1) [of g sf i g' sf] v(1) by simp
  have len: "length (vertices g') = length (vertices g)" using staticEq_length [OF s] .
  have run: "forVertices g' sf [Suc i..<length (vertices g')] = Some g1"
    using Suc.prems(4) v(1) unfolding upt len by simp
  have h'i: "h' < Suc i" using v(3) Suc.prems(5) by auto
  have IH: "\<forall>u. (Suc i \<le> u \<and> u < length (vertices g')) \<or> highestWeightNode g' = Some u \<longrightarrow>
           (\<exists>H. highestWeightNode g1 = Some H \<and>
                vweight (vertices g1 ! u) \<le> vweight (vertices g1 ! H))"
  proof (rule Suc.hyps(1))
    show "k = length (vertices g') - Suc i" using Suc.hyps(2) len by simp
    show "startNode g' = None" "endNode g' = None"
      using s Suc.prems(1,2) by (simp_all add: staticEq_fields)
    show "pointersValid g'" using staticEq_pointersValid [OF s Suc.prems(3)] .
    show "forVertices g' sf [Suc i..<length (vertices g')] = Some g1" by (rule run)
    show "\<forall>h. highestWeightNode g' = Some h \<longrightarrow> h < Suc i" using v(2) h'i by simp
  qed
  then obtain H where H: "highestWeightNode g1 = Some H"
      "vweight (vertices g1 ! h') \<le> vweight (vertices g1 ! H)"
    using v(2) by blast
  have frame: "vertices g1 ! u = vertices g' ! u" if "u < Suc i" for u
    using forVertices_frame [OF run] that by simp
  have "vweight (vertices g1 ! u) \<le> vweight (vertices g1 ! H)"
    if "u = i \<or> highestWeightNode g = Some u" for u
  proof -
    from that Suc.prems(5) have ui: "u < Suc i" by auto
    from that v(4,5) have "vweight (vertices g' ! u) \<le> vweight (vertices g' ! h')" by auto
    then have "vweight (vertices g1 ! u) \<le> vweight (vertices g1 ! h')"
      using frame [OF ui] frame [OF h'i] by simp
    with H(2) show ?thesis by simp
  qed
  with IH H(1) len show ?case
    by (metis Suc_leI le_neq_implies_less)
qed

lemma chooseBest_end:
  "endNode g2 = Some t \<Longrightarrow>
   chooseBest g2 sf1 v =
     (if vlabel (vertices g2 ! v) = vlabel (vertices g2 ! t)
      then Stop (g2\<lparr>highestWeightNode := Some v\<rparr>) else Next g2 sf1)"
  by (simp add: chooseBest_def)

lemma chooseBest_noend:
  assumes "endNode g2 = None"
  shows "chooseBest g2 sf1 v = Next (g2\<lparr>highestWeightNode := pick g2 v\<rparr>) sf1"
proof (cases "highestWeightNode g2")
  case None
  with assms show ?thesis by (simp add: chooseBest_def pick_def)
next
  case (Some h)
  then have "g2\<lparr>highestWeightNode := Some h\<rparr> = g2" by simp
  with Some assms show ?thesis by (simp add: chooseBest_def pick_def)
qed

lemma pick_agree:
  assumes "highestWeightNode b2 = highestWeightNode a2"
    and "vweight (vertices b2 ! v) = vweight (vertices a2 ! v)"
    and "\<forall>h. highestWeightNode a2 = Some h \<longrightarrow> vweight (vertices b2 ! h) = vweight (vertices a2 ! h)"
  shows "pick b2 v = pick a2 v"
  using assms by (simp add: pick_def split: option.splits)

lemma pick_range: "pick g2 v = Some h \<Longrightarrow> h = v \<or> highestWeightNode g2 = Some h"
  by (auto simp: pick_def split: option.splits if_splits)

lemma skipVertex_agree:
  assumes "staticEq b a" "pointersValid a" "v < length (vertices a)"
  shows "skipVertex b sf v = skipVertex a sf v"
proof (cases "startNode a")
  case None
  then show ?thesis using assms(1) by (simp add: skipVertex_def staticEq_fields)
next
  case (Some s)
  then have "s < length (vertices a)" using assms(2) by (simp add: pointersValid_def)
  then show ?thesis
    using Some assms(1) staticEq_label [OF assms(1)] assms(3)
    by (simp add: skipVertex_def staticEq_fields)
qed

lemma setOwn_enterVertex_same:
  assumes "own b v = r" "v < length (vertices b)"
  shows "vertices (setOwn (enterVertex b sf v) v r) = vertices b"
proof -
  have "(vertices b ! v)\<lparr>vweight := fst r, edgeForHWPath := snd r\<rparr> = vertices b ! v"
    using assms(1) by (auto simp: own_def)
  then show ?thesis
    using assms(2) by (simp add: setOwn_def enterVertex_def split: option.splits)
qed

lemma setOwn_staticEq [simp]: "staticEq (setOwn g v p) g"
proof -
  have "map vlabel (vertices (setOwn g v p)) = map vlabel (vertices g)"
    by (rule map_vlabel_eqI) simp_all
  then show ?thesis by (simp add: staticEq_def setOwn_def)
qed

lemma staticEq_isStartConstrained: "staticEq b a \<Longrightarrow> isStartConstrained b = isStartConstrained a"
  by (simp add: isStartConstrained_def staticEq_fields)

(*PROPERTIES*)

end
